theory Spec2Isabelle
  imports Main "HOL-Library.Word" "HOL-Library.Signed_Division"
begin

text \<open>
  tf2vpk, the command \<^verbatim>\<open>tf2-vpkunpack\<close>: the parent-aware glob matcher and the size
  formatter of \<^verbatim>\<open>internal/util.go\<close>, and the filter chain and the extraction loop of
  \<^verbatim>\<open>cmd/tf2-vpkunpack/main.go\<close>, as HOL functions; then what the specification says of
  them, stated and settled on these functions.
\<close>

section \<open>internal/util.go\<close>

subsection \<open>The host's string and path primitives\<close>

text \<open>
  Go strings are byte sequences: \<^typ>\<open>string\<close>. The three library calls of
  \<^verbatim>\<open>MatchGlobParents\<close> that work on the text of a path are written out as the Go
  documentation gives them:
  \<^item> \<^verbatim>\<open>strings.HasPrefix(pattern, "/")\<close> followed by \<^verbatim>\<open>pattern[1:]\<close>;
  \<^item> \<^verbatim>\<open>path.Split\<close>: the text up to and including the final slash, and the text after it
    (an empty directory part when there is no slash);
  \<^item> \<^verbatim>\<open>strings.TrimRight(s, cutset)\<close>: \<open>s\<close> without its trailing bytes that are in the
    cutset.
\<close>

definition path_Split :: "string \<Rightarrow> string \<times> string" where
  "path_Split p =
     (rev (dropWhile (\<lambda>c. c \<noteq> CHR ''/'') (rev p)),
      rev (takeWhile (\<lambda>c. c \<noteq> CHR ''/'') (rev p)))"

definition TrimRight :: "string \<Rightarrow> string \<Rightarrow> string" where
  "TrimRight s cutset = rev (dropWhile (\<lambda>c. c \<in> set cutset) (rev s))"

text \<open>
  \<^verbatim>\<open>path.Match(pattern, name)\<close> is the glob primitive of the Go library. It is not code
  of this repository, and \<^verbatim>\<open>MatchGlobParents\<close> uses nothing of it but its result, so it
  is a parameter of the embedding: a function giving, for a pattern and a name, either
  the error \<^verbatim>\<open>ErrBadPattern\<close> (the only error \<^verbatim>\<open>path.Match\<close> returns, with
  \<^verbatim>\<open>matched = false\<close>) or the boolean \<^verbatim>\<open>matched\<close> with a nil error.
\<close>

datatype error = ErrBadPattern

type_synonym glob = "string \<Rightarrow> string \<Rightarrow> error + bool"

subsection \<open>MatchGlobParents\<close>

text \<open>
  Lines 12 to 15: a leading slash is cut off the pattern and sets \<^verbatim>\<open>anchor\<close>.
\<close>

fun strip_anchor :: "string \<Rightarrow> string \<times> bool" where
  "strip_anchor [] = ([], False)"
| "strip_anchor (c # cs) = (if c = CHR ''/'' then (cs, True) else (c # cs, False))"

text \<open>
  Lines 16 to 32: the loop \<^verbatim>\<open>for name != ""\<close>. Each \<^verbatim>\<open>if m, err := ...; m || err != nil\<close>
  returns on a match and on an error, and falls through on \<^verbatim>\<open>(false, nil)\<close>.
\<close>

function MatchGlobParents_loop :: "glob \<Rightarrow> string \<Rightarrow> bool \<Rightarrow> string \<Rightarrow> error + bool" where
  "MatchGlobParents_loop pm pattern anchor name =
     (if name = [] then Inr False
      else case pm pattern name of
        Inl e \<Rightarrow> Inl e
      | Inr True \<Rightarrow> Inr True
      | Inr False \<Rightarrow>
          (case path_Split name of (parent, base) \<Rightarrow>
             (case (if \<not> anchor then pm pattern base else Inr False) of
                Inl e \<Rightarrow> Inl e
              | Inr True \<Rightarrow> Inr True
              | Inr False \<Rightarrow>
                  MatchGlobParents_loop pm pattern anchor (TrimRight parent ''/''))))"
  by pat_completeness auto

lemma length_TrimRight: "length (TrimRight s cutset) \<le> length s"
proof -
  have "length (dropWhile (\<lambda>c. c \<in> set cutset) (rev s)) \<le> length (rev s)"
    by (rule length_dropWhile_le)
  then show ?thesis by (simp add: TrimRight_def)
qed

lemma TrimRight_parent_shorter:
  assumes "name \<noteq> []" and "path_Split name = (parent, base)"
  shows "length (TrimRight parent ''/'') < length name"
proof (cases "last name = CHR ''/''")
  case True
  from assms(1) obtain ys where name: "name = ys @ [CHR ''/'']"
    using True by (metis append_butlast_last_id)
  with assms(2) have "parent = name"
    by (simp add: path_Split_def)
  then have "TrimRight parent ''/'' = TrimRight ys ''/''"
    by (simp add: TrimRight_def name)
  then show ?thesis
    using length_TrimRight [of ys "''/''"] by (simp add: name)
next
  case False
  from assms(1) obtain ys y where name: "name = ys @ [y]"
    by (metis append_butlast_last_id)
  with False have "y \<noteq> CHR ''/''" by simp
  with assms(2) name have "length parent \<le> length ys"
    using length_dropWhile_le [of "\<lambda>c. c \<noteq> CHR ''/''" "rev ys"]
    by (auto simp: path_Split_def)
  then show ?thesis
    using length_TrimRight [of parent "''/''"] by (simp add: name)
qed

termination MatchGlobParents_loop
proof (relation "measure (\<lambda>(pm, pattern, anchor, name). length name)")
  show "wf (measure (\<lambda>(pm, pattern, anchor, name). length name))" by simp
next
  fix pm :: glob and pattern :: string and anchor :: bool and name :: string
    and x2 :: bool and x y :: string and x2a :: bool
  assume "name \<noteq> []" and "(x, y) = path_Split name"
  then have "length (TrimRight x ''/'') < length name"
    using TrimRight_parent_shorter [of name x y] by simp
  then show "((pm, pattern, anchor, TrimRight x ''/''), pm, pattern, anchor, name)
      \<in> measure (\<lambda>(pm, pattern, anchor, name). length name)"
    by simp
qed

declare MatchGlobParents_loop.simps [simp del]

definition MatchGlobParents :: "glob \<Rightarrow> string \<Rightarrow> string \<Rightarrow> error + bool" where
  "MatchGlobParents pm pattern name =
     (case strip_anchor pattern of (pattern', anchor) \<Rightarrow>
        MatchGlobParents_loop pm pattern' anchor name)"

subsection \<open>FormatBytesSI\<close>

text \<open>
  \<^verbatim>\<open>int64\<close> is a 64-bit word read in two's complement: \<open>*\<close> wraps, \<open><s\<close> and
  \<open>\<le>s\<close> compare signed values, and Go's \<^verbatim>\<open>/\<close> truncates towards zero.
\<close>

type_synonym int64 = "64 word"

definition div64 :: "int64 \<Rightarrow> int64 \<Rightarrow> int64" where
  "div64 a b = word_of_int (sint a sdiv sint b)"

definition unit :: int64 where
  "unit = 1000"

text \<open>The verb \<^verbatim>\<open>%d\<close>: the decimal digits of an integer, with a minus sign when negative.\<close>

function digits :: "nat \<Rightarrow> string" where
  "digits n =
     (if n < 10 then [''0123456789'' ! n]
      else digits (n div 10) @ [''0123456789'' ! (n mod 10)])"
  by pat_completeness auto
termination
  by (relation "measure id") auto

declare digits.simps [simp del]

definition fmt_d :: "int \<Rightarrow> string" where
  "fmt_d i = (if i < 0 then CHR ''-'' # digits (nat (- i)) else digits (nat i))"

text \<open>
  \<^verbatim>\<open>float64\<close>. A value is kept as an exact fraction, numerator and denominator.
  \<open>float64\<close> rounds a fraction to the nearest number with a significand of 53 bits, a
  tie going to the even significand, as the conversion \<^verbatim>\<open>float64(b)\<close> and the division
  of two \<^verbatim>\<open>float64\<close> values do (IEEE 754, round to nearest even). Underflow and overflow
  are left out: the values \<^verbatim>\<open>FormatBytesSI\<close> computes lie between 1 and \<open>2^63\<close>.
\<close>

type_synonym fraction = "int \<times> int"

text \<open>The number of binary digits of a positive integer.\<close>

function bitlen :: "int \<Rightarrow> int" where
  "bitlen n = (if n \<le> 0 then 0 else 1 + bitlen (n div 2))"
  by pat_completeness auto
termination
  by (relation "measure nat") auto

declare bitlen.simps [simp del]

text \<open>The integer nearest to \<open>n / d\<close> for \<open>0 < d\<close>, a tie going to the even one.\<close>

definition round_half_even :: "int \<Rightarrow> int \<Rightarrow> int" where
  "round_half_even n d =
     (let q = n div d; r = n mod d
      in if 2 * r < d then q else if d < 2 * r then q + 1
         else if even q then q else q + 1)"

text \<open>The exponent \<open>e\<close> with \<open>2^e \<le> n / d < 2^(e+1)\<close>, for \<open>0 < n\<close> and \<open>0 < d\<close>.\<close>

definition floor_log2 :: "int \<Rightarrow> int \<Rightarrow> int" where
  "floor_log2 n d =
     (if d \<le> n then bitlen (n div d) - 1 else - bitlen ((d + n - 1) div n - 1))"

definition float64 :: "fraction \<Rightarrow> fraction" where
  "float64 x =
     (case x of (n, d) \<Rightarrow>
        if n \<le> 0 then (0, 1)
        else let k = floor_log2 n d - 52
             in if 0 \<le> k then (round_half_even n (d * 2 ^ nat k) * 2 ^ nat k, 1)
                else (round_half_even (n * 2 ^ nat (- k)) d, 2 ^ nat (- k)))"

definition float64_div :: "fraction \<Rightarrow> fraction \<Rightarrow> fraction" where
  "float64_div x y = (case (x, y) of ((a, b), (c, d)) \<Rightarrow> float64 (a * d, b * c))"

text \<open>
  The verb \<^verbatim>\<open>%.1f\<close> applied to \<^verbatim>\<open>float64(b)/float64(div)\<close>, for \<open>0 \<le> b\<close> and \<open>0 < div\<close>:
  the exact decimal expansion of the \<^verbatim>\<open>float64\<close> quotient, rounded to one fractional
  digit with a tie going to the even digit, as \<^verbatim>\<open>strconv\<close> formats with a precision.
  So 1050 over 1000 is \<^verbatim>\<open>1.1\<close> (the \<^verbatim>\<open>float64\<close> nearest to 1.05 lies above it) and 1950
  over 1000 is \<^verbatim>\<open>1.9\<close> (the one nearest to 1.95 lies below it).
\<close>

definition fmt_f1 :: "int \<Rightarrow> int \<Rightarrow> string" where
  "fmt_f1 b d =
     (case float64_div (float64 (b, 1)) (float64 (d, 1)) of (n, m) \<Rightarrow>
        let t = round_half_even (10 * n) m
        in fmt_d (t div 10) @ ''.'' @ fmt_d (t mod 10))"

text \<open>
  Lines 46 to 50: \<^verbatim>\<open>for n := b / unit; n >= unit; n /= unit { div *= unit; exp++ }\<close>.
\<close>

function SI_loop :: "int64 \<Rightarrow> int64 \<Rightarrow> nat \<Rightarrow> int64 \<times> nat" where
  "SI_loop n div' exp =
     (if unit \<le>s n then SI_loop (div64 n unit) (div' * unit) (exp + 1) else (div', exp))"
  by pat_completeness auto

lemma sint_div64_unit:
  assumes "unit \<le>s n"
  shows "sint (div64 n unit) = sint n div 1000"
proof -
  from assms have n: "1000 \<le> sint n" by (simp add: unit_def word_sle_eq)
  have lt: "sint n < 2 ^ 63" using sint_lt [of n] by simp
  have "sint n sdiv 1000 = sint n div 1000"
    using n by (simp add: signed_divide_int_def sgn_if)
  moreover have "0 \<le> sint n div 1000" using n by simp
  moreover have "sint n div 1000 < 2 ^ 63" using lt n
    by (smt (verit) div_by_1 zdiv_mono2)
  ultimately show ?thesis
    by (simp add: div64_def unit_def int_word_sint)
qed

termination SI_loop
proof (relation "measure (\<lambda>(n, d, e). nat (sint n))")
  show "wf (measure (\<lambda>(n, d, e). nat (sint n)))" by simp
next
  fix n div' :: int64 and exp :: nat
  assume a: "unit \<le>s n"
  then have n: "1000 \<le> sint n" by (simp add: unit_def word_sle_eq)
  then have "sint n div 1000 < sint n" by simp
  with a n show "((div64 n unit, div' * unit, exp + 1), n, div', exp)
     \<in> measure (\<lambda>(n, d, e). nat (sint n))"
    by (simp add: sint_div64_unit)
qed

declare SI_loop.simps [simp del]

text \<open>
  Lines 36 to 56. \<^verbatim>\<open>"kMGTPE"[exp]\<close> panics when \<open>exp\<close> is out of range: the result
  \<open>None\<close>.
\<close>

definition FormatBytesSI :: "int64 \<Rightarrow> string option" where
  "FormatBytesSI b0 =
     (let neg = (b0 <s 0);
          b = (if neg then b0 * (- 1) else b0)
      in if b <s unit then Some (fmt_d (sint b) @ '' B'')
         else case SI_loop (div64 b unit) unit 0 of (div', exp) \<Rightarrow>
           if exp < length ''kMGTPE'' then
             Some ((if neg then ''-'' else '''') @ fmt_f1 (sint b) (sint div')
                   @ '' '' @ [''kMGTPE'' ! exp] @ ''B'')
           else None)"

section \<open>cmd/tf2-vpkunpack/main.go: the extraction loop\<close>

subsection \<open>Archive entries, flags and the state of a run\<close>

text \<open>
  Of an entry (\<^verbatim>\<open>tf2vpk.ValvePakFile\<close>) the loop reads \<^verbatim>\<open>Path\<close> and the
  \<^verbatim>\<open>UncompressedSize\<close> (a \<^verbatim>\<open>uint64\<close>) of each element of \<^verbatim>\<open>Chunk\<close>.
\<close>

record ValvePakChunk =
  UncompressedSize :: "64 word"

record ValvePakFile =
  Path :: string
  Chunk :: "ValvePakChunk list"

text \<open>The command-line values the loop reads: \<^verbatim>\<open>argv[0]\<close> and the two pattern lists.\<close>

record flags =
  vpkOut :: string
  Exclude :: "string list"
  Include :: "string list"

text \<open>
  The state the loop works on: the regular files of the file system with their bytes,
  the directories, the counter \<^verbatim>\<open>excludedCount\<close>, and the lines printed on standard
  output so far.
\<close>

record state =
  files :: "string \<rightharpoonup> string"
  dirs :: "string set"
  excludedCount :: int
  stdout :: "string list"

text \<open>
  What the world outside the program answers while one entry is extracted (the
  simulated failures of the specification): whether \<^verbatim>\<open>os.MkdirAll\<close> succeeds, the random
  part of the name \<^verbatim>\<open>os.CreateTemp\<close> picks (or none, on an error), whether
  \<^verbatim>\<open>OpenFileParallel\<close> returns a reader, the bytes \<^verbatim>\<open>io.Copy\<close> has written when it
  returns and whether it returns nil, and whether \<^verbatim>\<open>Close\<close>, \<^verbatim>\<open>os.Rename\<close> and
  \<^verbatim>\<open>os.Remove\<close> succeed.
\<close>

record entry_io =
  MkdirAll_ok :: bool
  CreateTemp_random :: "string option"
  OpenFileParallel_ok :: bool
  Copy_result :: "string \<times> bool"
  Close_ok :: bool
  Rename_ok :: bool
  Remove_ok :: bool

text \<open>
  Every error path of the loop prints a message on standard error and calls
  \<^verbatim>\<open>os.Exit(1)\<close>; the messages are kept as constructors, with the values they print.
  \<open>IndexPanic\<close> is the run-time panic of \<^verbatim>\<open>FormatBytesSI\<close>.
\<close>

datatype fatal =
    ProcessExcludes string string error
  | ProcessIncludes string string error
  | CreateOutPath string
  | CreateTempFile
  | ReadVpkFile string
  | ExtractVpkFile string
  | RenameTempFile string
  | IndexPanic

datatype outcome = Continue state | Exit fatal state

subsection \<open>The filter chain (lines 156 to 172)\<close>

fun Exclude_loop :: "glob \<Rightarrow> string list \<Rightarrow> string \<Rightarrow> bool \<Rightarrow> fatal + bool" where
  "Exclude_loop pm [] p excluded = Inr excluded"
| "Exclude_loop pm (x # xs) p excluded =
     (case MatchGlobParents pm x p of
        Inl err \<Rightarrow> Inl (ProcessExcludes p x err)
      | Inr m \<Rightarrow> Exclude_loop pm xs p (if m then True else excluded))"

fun Include_loop :: "glob \<Rightarrow> string list \<Rightarrow> string \<Rightarrow> bool \<Rightarrow> fatal + bool" where
  "Include_loop pm [] p excluded = Inr excluded"
| "Include_loop pm (x # xs) p excluded =
     (case MatchGlobParents pm x p of
        Inl err \<Rightarrow> Inl (ProcessIncludes p x err)
      | Inr m \<Rightarrow> Include_loop pm xs p (if m then False else excluded))"

text \<open>
  The decision of the two loops for one entry path, starting from
  \<^verbatim>\<open>var excluded bool\<close> (false): the specification's \<^verbatim>\<open>IsExcluded\<close>.
\<close>

definition IsExcluded :: "glob \<Rightarrow> flags \<Rightarrow> string \<Rightarrow> fatal + bool" where
  "IsExcluded pm fl p =
     (case Exclude_loop pm (Exclude fl) p False of
        Inl e \<Rightarrow> Inl e
      | Inr excluded \<Rightarrow> Include_loop pm (Include fl) p excluded)"

subsection \<open>Progress lines\<close>

text \<open>The verb \<^verbatim>\<open>%4d\<close>: \<^verbatim>\<open>%d\<close> padded with spaces on the left to four bytes.\<close>

definition fmt_4d :: "int \<Rightarrow> string" where
  "fmt_4d i = replicate (4 - length (fmt_d i)) CHR '' '' @ fmt_d i"

text \<open>
  \<^verbatim>\<open>[%4d/%4d] %s (%s)\<close> with \<^verbatim>\<open>i+1\<close>, \<^verbatim>\<open>len(r.Root.File)\<close>, the path and a note; the
  final newline ends the line and is not kept.
\<close>

definition progress_line :: "nat \<Rightarrow> nat \<Rightarrow> string \<Rightarrow> string \<Rightarrow> string" where
  "progress_line i n_files p note =
     ''['' @ fmt_4d (int i + 1) @ ''/'' @ fmt_4d (int n_files) @ ''] '' @ p
       @ '' ('' @ note @ '')''"

definition println :: "string \<Rightarrow> state \<Rightarrow> state" where
  "println l st = st\<lparr>stdout := stdout st @ [l]\<rparr>"

text \<open>Lines 179 to 182: the sum of the chunk sizes, in \<^verbatim>\<open>uint64\<close> arithmetic.\<close>

definition uncompressed :: "ValvePakFile \<Rightarrow> 64 word" where
  "uncompressed f = foldl (\<lambda>u c. u + UncompressedSize c) 0 (Chunk f)"

subsection \<open>Paths and file-system calls\<close>

text \<open>
  The separator is the slash, so \<^verbatim>\<open>filepath.FromSlash\<close> is the identity. A path is
  looked up in the file system by its text.

  \<^verbatim>\<open>filepath.Clean\<close>, after its documentation: runs of slashes count as one; every
  \<^verbatim>\<open>.\<close> element goes; every inner \<^verbatim>\<open>..\<close> element goes with the element before it that is
  not \<^verbatim>\<open>..\<close>; a \<^verbatim>\<open>..\<close> element that begins a rooted path goes; the result ends in a
  slash only when it is the root, and the empty result is \<^verbatim>\<open>.\<close>. The elements are
  read from left to right, \<open>out\<close> holding the elements kept so far.
\<close>

fun split_slash :: "string \<Rightarrow> string list" where
  "split_slash [] = [[]]"
| "split_slash (c # cs) =
     (if c = CHR ''/'' then [] # split_slash cs
      else case split_slash cs of [] \<Rightarrow> [[c]] | x # xs \<Rightarrow> (c # x) # xs)"

fun strings_Join :: "string list \<Rightarrow> string \<Rightarrow> string" where
  "strings_Join [] sep = []"
| "strings_Join [x] sep = x"
| "strings_Join (x # xs) sep = x @ sep @ strings_Join xs sep"

definition Clean_step :: "bool \<Rightarrow> string list \<Rightarrow> string \<Rightarrow> string list" where
  "Clean_step rooted out name =
     (if name = [] \<or> name = ''.'' then out
      else if name = ''..'' then
        (if out \<noteq> [] \<and> last out \<noteq> ''..'' then butlast out
         else if rooted then out else out @ [name])
      else out @ [name])"

definition filepath_Clean :: "string \<Rightarrow> string" where
  "filepath_Clean p =
     (let rooted = (p \<noteq> [] \<and> hd p = CHR ''/'');
          out = (if rooted then ''/'' else [])
                  @ strings_Join (foldl (Clean_step rooted) [] (split_slash p)) ''/''
      in if out = [] then ''.'' else out)"

text \<open>
  \<^verbatim>\<open>filepath.Join(vpkOut, f.Path)\<close>: the elements from the first non-empty one on,
  joined by slashes and cleaned; the empty text when both are empty. \<^verbatim>\<open>filepath.Dir\<close>:
  the path up to and including its final slash, cleaned.
\<close>

definition filepath_Join :: "string \<Rightarrow> string \<Rightarrow> string" where
  "filepath_Join a b =
     (if a \<noteq> [] then filepath_Clean (strings_Join [a, b] ''/'')
      else if b \<noteq> [] then filepath_Clean b
      else [])"

definition filepath_Dir :: "string \<Rightarrow> string" where
  "filepath_Dir p = filepath_Clean (fst (path_Split p))"

text \<open>
  \<^verbatim>\<open>os.MkdirAll(dir)\<close> makes \<open>dir\<close> and every missing ancestor a directory: the prefixes
  of \<open>dir\<close> that end before a slash, and \<open>dir\<close> itself. It fails when the world says so,
  and when one of them is a regular file; the directories a failing call has made before
  it fails are not kept.
\<close>

fun dir_prefixes :: "string \<Rightarrow> string \<Rightarrow> string list" where
  "dir_prefixes acc [] = []"
| "dir_prefixes acc (c # cs) =
     (if c = CHR ''/'' \<and> acc \<noteq> [] then [acc] else []) @ dir_prefixes (acc @ [c]) cs"

definition dir_chain :: "string \<Rightarrow> string list" where
  "dir_chain d = dir_prefixes [] d @ [d]"

definition MkdirAll :: "entry_io \<Rightarrow> string \<Rightarrow> state \<Rightarrow> state option" where
  "MkdirAll io d st =
     (if \<not> MkdirAll_ok io \<or> list_ex (\<lambda>a. files st a \<noteq> None) (dir_chain d) then None
      else Some (st\<lparr>dirs := dirs st \<union> set (dir_chain d)\<rparr>))"

text \<open>
  \<^verbatim>\<open>os.CreateTemp(vpkOut, ".vpk*")\<close> creates an empty file in \<open>vpkOut\<close>, opened
  exclusively, whose name is \<^verbatim>\<open>.vpk\<close> followed by a random string. The name is the
  directory, a slash unless the directory ends in one, and the file's name, not cleaned.
  (With an empty directory \<^verbatim>\<open>os.CreateTemp\<close> takes the system's one for temporary
  files; the loop is not reached with an empty \<open>vpkOut\<close>, on which the \<^verbatim>\<open>os.Mkdir\<close> of
  line 123 fails.) The call fails when the directory is not there. It never returns the
  name of something that exists, so a random string whose name exists is an error of the
  call here.
\<close>

definition temp_name :: "string \<Rightarrow> string \<Rightarrow> string" where
  "temp_name dir r =
     (if dir \<noteq> [] \<and> last dir = CHR ''/'' then dir else dir @ ''/'') @ ''.vpk'' @ r"

definition CreateTemp :: "entry_io \<Rightarrow> string \<Rightarrow> state \<Rightarrow> (string \<times> state) option" where
  "CreateTemp io root st =
     (case CreateTemp_random io of
        None \<Rightarrow> None
      | Some r \<Rightarrow>
          (let tf = temp_name root r
           in if filepath_Clean root \<notin> dirs st \<or> files st tf \<noteq> None \<or> tf \<in> dirs st
              then None
              else Some (tf, st\<lparr>files := (files st)(tf \<mapsto> [])\<rparr>)))"

text \<open>
  \<^verbatim>\<open>os.Remove(tf.Name())\<close>, whose error the loop ignores: the file is gone when the
  call succeeds and stays when it fails.
\<close>

definition Remove :: "entry_io \<Rightarrow> string \<Rightarrow> state \<Rightarrow> state" where
  "Remove io tf st = (if Remove_ok io then st\<lparr>files := (files st)(tf := None)\<rparr> else st)"

text \<open>
  \<^verbatim>\<open>os.Rename(oldpath, newpath)\<close>, after its documentation: ``If newpath already exists
  and is not a directory, Rename replaces it.'' It fails when the world says so, when
  \<open>newpath\<close> is a directory and when \<open>oldpath\<close> is not there; the file system is then as
  it was.
\<close>

definition Rename :: "entry_io \<Rightarrow> string \<Rightarrow> string \<Rightarrow> state \<Rightarrow> state option" where
  "Rename io oldpath newpath st =
     (case files st oldpath of
        None \<Rightarrow> None
      | Some bytes \<Rightarrow>
          if \<not> Rename_ok io \<or> newpath \<in> dirs st then None
          else Some (st\<lparr>files := ((files st)(oldpath := None))(newpath \<mapsto> bytes)\<rparr>))"

subsection \<open>One iteration of the loop (lines 155 to 224)\<close>

text \<open>Lines 185 to 221, for an entry that is not excluded, after its progress line.\<close>

definition extract_entry :: "flags \<Rightarrow> entry_io \<Rightarrow> ValvePakFile \<Rightarrow> state \<Rightarrow> outcome" where
  "extract_entry fl io f st =
     (let outPath = filepath_Join (vpkOut fl) (Path f)
      in case MkdirAll io (filepath_Dir outPath) st of
           None \<Rightarrow> Exit (CreateOutPath outPath) st
         | Some st1 \<Rightarrow>
             (case CreateTemp io (vpkOut fl) st1 of
                None \<Rightarrow> Exit CreateTempFile st1
              | Some (tf, st2) \<Rightarrow>
                  if \<not> OpenFileParallel_ok io
                  then Exit (ReadVpkFile (Path f)) (Remove io tf st2)
                  else
                    (let st3 = st2\<lparr>files := (files st2)(tf \<mapsto> fst (Copy_result io))\<rparr>
                     in if \<not> snd (Copy_result io)
                        then Exit (ExtractVpkFile (Path f)) (Remove io tf st3)
                        else if \<not> Close_ok io
                        then Exit (ExtractVpkFile (Path f)) (Remove io tf st3)
                        else
                          (case Rename io tf outPath st3 of
                             None \<Rightarrow> Exit (RenameTempFile (Path f)) st3
                           | Some st4 \<Rightarrow> Continue st4))))"

definition process_entry ::
  "glob \<Rightarrow> flags \<Rightarrow> entry_io \<Rightarrow> nat \<Rightarrow> nat \<Rightarrow> ValvePakFile \<Rightarrow> state \<Rightarrow> outcome" where
  "process_entry pm fl io i n_files f st =
     (case IsExcluded pm fl (Path f) of
        Inl e \<Rightarrow> Exit e st
      | Inr True \<Rightarrow>
          Continue (println (progress_line i n_files (Path f) ''excluded'')
                      (st\<lparr>excludedCount := excludedCount st + 1\<rparr>))
      | Inr False \<Rightarrow>
          (case FormatBytesSI (uncompressed f) of
             None \<Rightarrow> Exit IndexPanic st
           | Some sz \<Rightarrow>
               extract_entry fl io f (println (progress_line i n_files (Path f) sz) st)))"

subsection \<open>The loop and the end of the run (lines 153 to 233)\<close>

text \<open>
  \<^verbatim>\<open>for i, f := range r.Root.File\<close>: the entries in listing order, the world's answers
  indexed by \<open>i\<close>. An exit ends the run with the state it was in.
\<close>

fun main_loop ::
  "glob \<Rightarrow> flags \<Rightarrow> (nat \<Rightarrow> entry_io) \<Rightarrow> nat \<Rightarrow> nat \<Rightarrow> ValvePakFile list \<Rightarrow> state \<Rightarrow> outcome"
where
  "main_loop pm fl world i n_files [] st = Continue st"
| "main_loop pm fl world i n_files (f # fs) st =
     (case process_entry pm fl (world i) i n_files f st of
        Exit e st' \<Rightarrow> Exit e st'
      | Continue st' \<Rightarrow> main_loop pm fl world (Suc i) n_files fs st')"

definition success_line :: "int \<Rightarrow> string" where
  "success_line n =
     (if n \<noteq> 0 then ''success ('' @ fmt_d n @ '' files excluded by command-line filter)''
      else ''success'')"

definition extract_all ::
  "glob \<Rightarrow> flags \<Rightarrow> (nat \<Rightarrow> entry_io) \<Rightarrow> ValvePakFile list \<Rightarrow> state \<Rightarrow> outcome" where
  "extract_all pm fl world fs st =
     (case main_loop pm fl world 0 (length fs) fs (st\<lparr>excludedCount := 0\<rparr>) of
        Exit e st' \<Rightarrow> Exit e st'
      | Continue st' \<Rightarrow>
          Continue (println (success_line (excludedCount st')) (println [] st')))"

section \<open>The notions of the specification\<close>

subsection \<open>Paths, ancestors and well-formed patterns\<close>

text \<open>
  A path of the data model is a sequence of components joined by slashes; a component
  is not empty and holds no slash. The basenames of a path and of its ancestor
  directories are its components, and its ancestor-prefixes are the joins of the first
  \<open>k\<close> components, for \<open>k\<close> from 1 to their number: the last one is the path itself.
\<close>

fun join_path :: "string list \<Rightarrow> string" where
  "join_path [] = []"
| "join_path [c] = c"
| "join_path (c # cs) = c @ CHR ''/'' # join_path cs"

definition component :: "string \<Rightarrow> bool" where
  "component c = (c \<noteq> [] \<and> CHR ''/'' \<notin> set c)"

definition ancestor_prefixes :: "string list \<Rightarrow> string list" where
  "ancestor_prefixes cs = map (\<lambda>k. join_path (take k cs)) [1..<Suc (length cs)]"

text \<open>The pattern glob-matches the name: the primitive returns \<^verbatim>\<open>(true, nil)\<close>.\<close>

definition glob_matches :: "glob \<Rightarrow> string \<Rightarrow> string \<Rightarrow> bool" where
  "glob_matches pm pattern name = (pm pattern name = Inr True)"

text \<open>
  A pattern is anchored when it is written with a leading slash. It is well formed
  when the primitive reports a bad pattern on no name, for the pattern as
  \<^verbatim>\<open>MatchGlobParents\<close> hands it over (without the leading slash).
\<close>

definition anchored :: "string \<Rightarrow> bool" where
  "anchored pattern = (pattern \<noteq> [] \<and> hd pattern = CHR ''/'')"

definition well_formed :: "glob \<Rightarrow> string \<Rightarrow> bool" where
  "well_formed pm pattern =
     (\<forall>name. pm (fst (strip_anchor pattern)) name \<noteq> Inl ErrBadPattern)"

text \<open>The entry path matches at least one pattern of the list.\<close>

definition matches_some :: "glob \<Rightarrow> string list \<Rightarrow> string \<Rightarrow> bool" where
  "matches_some pm xs p = list_ex (\<lambda>x. MatchGlobParents pm x p = Inr True) xs"

subsection \<open>A glob primitive to evaluate with\<close>

text \<open>
  The theorems below hold for every glob primitive. To apply them to concrete patterns
  and paths, here is one: \<^verbatim>\<open>path.Match\<close> on the patterns made of literal bytes, \<^verbatim>\<open>?\<close>
  (one byte that is not a slash) and \<^verbatim>\<open>*\<close> (any run of bytes that are not slashes).
  Escapes and character classes are left out: this primitive reports every pattern with
  a backslash or an opening bracket as a bad pattern (\<^verbatim>\<open>path.Match\<close> does so for some of
  them, as for the lone \<^verbatim>\<open>[\<close>).
\<close>

fun star_glob :: "string \<Rightarrow> string \<Rightarrow> bool" where
  "star_glob [] [] = True"
| "star_glob [] (c # cs) = False"
| "star_glob (p # ps) [] = (p = CHR ''*'' \<and> star_glob ps [])"
| "star_glob (p # ps) (c # cs) =
     (if p = CHR ''*'' then star_glob ps (c # cs) \<or> (c \<noteq> CHR ''/'' \<and> star_glob (p # ps) cs)
      else if p = CHR ''?'' then c \<noteq> CHR ''/'' \<and> star_glob ps cs
      else p = c \<and> star_glob ps cs)"

definition simple_Match :: glob where
  "simple_Match pattern name =
     (if CHR ''['' \<in> set pattern \<or> CHR 0x5C \<in> set pattern then Inl ErrBadPattern
      else Inr (star_glob pattern name))"

subsection \<open>Outcomes, and states and worlds to evaluate with\<close>

fun final_state :: "outcome \<Rightarrow> state" where
  "final_state (Continue st) = st"
| "final_state (Exit e st) = st"

fun exit_error :: "outcome \<Rightarrow> fatal option" where
  "exit_error (Continue st) = None"
| "exit_error (Exit e st) = Some e"

text \<open>The least \<^verbatim>\<open>int64\<close>, \<open>- 2^63\<close>.\<close>

definition min_int64 :: int64 where
  "min_int64 = - 9223372036854775808"

text \<open>
  A run into the directory \<^verbatim>\<open>out\<close> with no filter, and one that excludes
  \<^verbatim>\<open>/secrets\<close>; the state in which the loop starts on an empty output directory, after
  lines 139 to 149 have saved the two manifests; an entry with one chunk; and a world in
  which every call succeeds, with the random part of the temporary name and the bytes
  the reader delivers.
\<close>

definition unfiltered :: flags where
  "unfiltered = \<lparr>vpkOut = ''out'', Exclude = [], Include = []\<rparr>"

definition no_secrets :: flags where
  "no_secrets = \<lparr>vpkOut = ''out'', Exclude = [''/secrets''], Include = []\<rparr>"

definition fresh_root :: state where
  "fresh_root =
     \<lparr>files = [''out/.vpkflags'' \<mapsto> ''flags'', ''out/.vpkignore'' \<mapsto> ''ignore''],
      dirs = {''out''}, excludedCount = 0, stdout = []\<rparr>"

definition entry :: "string \<Rightarrow> nat \<Rightarrow> ValvePakFile" where
  "entry p n = \<lparr>Path = p, Chunk = [\<lparr>UncompressedSize = of_nat n\<rparr>]\<rparr>"

text \<open>
  Every call of one extraction succeeds in the world \<open>io\<close>, \<^verbatim>\<open>os.CreateTemp\<close> picking the
  random string \<open>r\<close> and \<^verbatim>\<open>io.Copy\<close> writing \<open>bytes\<close>.
\<close>

definition calls_succeed :: "entry_io \<Rightarrow> string \<Rightarrow> string \<Rightarrow> bool" where
  "calls_succeed io r bytes =
     (MkdirAll_ok io \<and> CreateTemp_random io = Some r \<and> OpenFileParallel_ok io
      \<and> Copy_result io = (bytes, True) \<and> Close_ok io \<and> Rename_ok io)"

definition all_ok :: "string \<Rightarrow> string \<Rightarrow> entry_io" where
  "all_ok r bytes =
     \<lparr>MkdirAll_ok = True, CreateTemp_random = Some r, OpenFileParallel_ok = True,
      Copy_result = (bytes, True), Close_ok = True, Rename_ok = True, Remove_ok = True\<rparr>"

text \<open>
  An archive that lists \<^verbatim>\<open>a/b\<close> and then \<^verbatim>\<open>a\<close>, extracted into the fresh root in a
  world where every call succeeds that can: extracting \<^verbatim>\<open>a/b\<close> makes \<^verbatim>\<open>out/a\<close> a
  directory, onto which the temporary file of \<^verbatim>\<open>a\<close> cannot be renamed.
\<close>

definition two_worlds :: "nat \<Rightarrow> entry_io" where
  "two_worlds i = (if i = 0 then all_ok ''1'' ''B'' else all_ok ''2'' ''A'')"

definition dir_then_file_run :: outcome where
  "dir_then_file_run =
     main_loop simple_Match unfiltered two_worlds 0 2 [entry ''a/b'' 1, entry ''a'' 1] fresh_root"

text \<open>
  An archive of the single entry \<^verbatim>\<open>a\<close>, extracted into the fresh root in a world where
  \<^verbatim>\<open>os.Rename\<close> fails and every other call succeeds.
\<close>

definition rename_fault_run :: outcome where
  "rename_fault_run =
     main_loop simple_Match unfiltered (\<lambda>i. (all_ok ''1'' ''A'')\<lparr>Rename_ok := False\<rparr>) 0 1
       [entry ''a'' 1] fresh_root"

text \<open>
  An archive entry named \<^verbatim>\<open>.vpkflags\<close>, like the manifest the run has just saved,
  extracted into the fresh root in a world where every call succeeds.
\<close>

definition manifest_clash_run :: outcome where
  "manifest_clash_run =
     process_entry simple_Match unfiltered (all_ok ''1'' ''new'') 0 1 (entry ''.vpkflags'' 3)
       fresh_root"

section \<open>Properties of internal/util.go\<close>

text \<open>The equations that evaluate the functions on concrete inputs.\<close>

lemmas FormatBytesSI_eval =
  FormatBytesSI_def SI_loop.simps digits.simps unit_def fmt_d_def fmt_f1_def float64_div_def
  float64_def floor_log2_def round_half_even_def bitlen.simps div64_def signed_divide_int_def
  word_sless_alt word_sle_eq Let_def

lemmas MatchGlobParents_eval =
  MatchGlobParents_def MatchGlobParents_loop.simps simple_Match_def path_Split_def
  TrimRight_def

lemma well_formed_simple_Match:
  "CHR ''['' \<notin> set pattern \<Longrightarrow> CHR 0x5C \<notin> set pattern \<Longrightarrow> well_formed simple_Match pattern"
  by (cases pattern) (auto simp: well_formed_def simple_Match_def)

subsection \<open>The loop of MatchGlobParents on a path of components\<close>

lemma join_path_snoc:
  "cs \<noteq> [] \<Longrightarrow> join_path (cs @ [c]) = join_path cs @ CHR ''/'' # c"
  by (induction cs rule: join_path.induct) auto

lemma join_path_last:
  "list_all component cs \<Longrightarrow> cs \<noteq> [] \<Longrightarrow>
     join_path cs \<noteq> [] \<and> last (join_path cs) \<noteq> CHR ''/''"
proof (induction cs rule: join_path.induct)
  case 1
  then show ?case by simp
next
  case (2 c)
  then have "c \<noteq> []" and "CHR ''/'' \<notin> set c" by (simp_all add: component_def)
  then show ?case by (metis join_path.simps(2) last_in_set)
next
  case (3 c v va)
  then show ?case by auto
qed

lemma path_Split_slash_component:
  "component c \<Longrightarrow> path_Split (p @ CHR ''/'' # c) = (p @ ''/'', c)"
proof -
  assume "component c"
  then have all: "\<forall>x\<in>set (rev c). x \<noteq> CHR ''/''" by (auto simp: component_def)
  have "rev (p @ CHR ''/'' # c) = rev c @ CHR ''/'' # rev p" by simp
  then have tw: "takeWhile (\<lambda>c. c \<noteq> CHR ''/'') (rev (p @ CHR ''/'' # c)) = rev c"
    and dw: "dropWhile (\<lambda>c. c \<noteq> CHR ''/'') (rev (p @ CHR ''/'' # c)) = CHR ''/'' # rev p"
    using all by (simp_all add: takeWhile_tail dropWhile_append3)
  show ?thesis unfolding path_Split_def tw dw by simp
qed

lemma path_Split_component:
  "component c \<Longrightarrow> path_Split c = ([], c)"
proof -
  assume "component c"
  then have all: "\<forall>x\<in>set (rev c). x \<noteq> CHR ''/''" by (auto simp: component_def)
  then have tw: "takeWhile (\<lambda>c. c \<noteq> CHR ''/'') (rev c) = rev c"
    and dw: "dropWhile (\<lambda>c. c \<noteq> CHR ''/'') (rev c) = []"
    by (simp_all only: takeWhile_eq_all_conv dropWhile_eq_Nil_conv)
  show ?thesis unfolding path_Split_def tw dw by simp
qed

lemma TrimRight_slash_id:
  "p = [] \<or> last p \<noteq> CHR ''/'' \<Longrightarrow> TrimRight (p @ ''/'') ''/'' = p"
  by (cases p rule: rev_cases) (auto simp: TrimRight_def)

lemma TrimRight_Nil: "TrimRight [] cutset = []"
  by (simp add: TrimRight_def)

lemma ancestor_prefixes_snoc:
  "ancestor_prefixes (cs @ [c]) = ancestor_prefixes cs @ [join_path (cs @ [c])]"
proof -
  have "[1..<Suc (length (cs @ [c]))] = [1..<Suc (length cs)] @ [Suc (length cs)]"
    by simp
  moreover have "map (\<lambda>k. join_path (take k (cs @ [c]))) [1..<Suc (length cs)]
      = map (\<lambda>k. join_path (take k cs)) [1..<Suc (length cs)]"
    by (rule map_cong) auto
  ultimately show ?thesis
    by (simp add: ancestor_prefixes_def del: upt_Suc)
qed

lemma ancestor_prefixes_Nil: "ancestor_prefixes [] = []"
  by (simp add: ancestor_prefixes_def)

lemma glob_total:
  "pm pattern name \<noteq> Inl ErrBadPattern \<Longrightarrow> pm pattern name = Inr (glob_matches pm pattern name)"
  by (cases "pm pattern name") (auto simp: glob_matches_def intro: error.exhaust)

lemma MatchGlobParents_loop_components:
  "list_all component cs \<Longrightarrow>
   list_all (\<lambda>n. pm pattern n \<noteq> Inl ErrBadPattern) (ancestor_prefixes cs) \<Longrightarrow>
   anchor \<or> list_all (\<lambda>n. pm pattern n \<noteq> Inl ErrBadPattern) cs \<Longrightarrow>
    MatchGlobParents_loop pm pattern anchor (join_path cs) =
      Inr (list_ex (glob_matches pm pattern) (ancestor_prefixes cs)
           \<or> (\<not> anchor \<and> list_ex (glob_matches pm pattern) cs))"
proof (induction cs rule: rev_induct)
  case Nil
  then show ?case by (simp add: ancestor_prefixes_Nil MatchGlobParents_loop.simps)
next
  case (snoc c cs)
  let ?name = "join_path (cs @ [c])"
  from snoc.prems have c: "component c" and cs: "list_all component cs" by simp_all
  from snoc.prems(2) have full: "pm pattern ?name = Inr (glob_matches pm pattern ?name)"
    and wf_cs: "list_all (\<lambda>n. pm pattern n \<noteq> Inl ErrBadPattern) (ancestor_prefixes cs)"
    by (simp_all add: ancestor_prefixes_snoc glob_total del: join_path.simps)
  from snoc.prems(3) have base: "\<not> anchor \<Longrightarrow> pm pattern c = Inr (glob_matches pm pattern c)"
    and wf_base: "anchor \<or> list_all (\<lambda>n. pm pattern n \<noteq> Inl ErrBadPattern) cs"
    by (auto simp: glob_total)
  have IH: "MatchGlobParents_loop pm pattern anchor (join_path cs) =
      Inr (list_ex (glob_matches pm pattern) (ancestor_prefixes cs)
           \<or> (\<not> anchor \<and> list_ex (glob_matches pm pattern) cs))"
    using snoc.IH cs wf_cs wf_base by simp
  have ne: "?name \<noteq> []"
    using join_path_last [of "cs @ [c]"] snoc.prems(1) by simp
  have split: "path_Split ?name = (if cs = [] then [] else join_path cs @ ''/'', c)"
    using c by (simp add: join_path_snoc path_Split_slash_component path_Split_component)
  have trim: "TrimRight (if cs = [] then [] else join_path cs @ ''/'') ''/'' = join_path cs"
    using join_path_last [OF cs] by (auto simp: TrimRight_Nil TrimRight_slash_id)
  have "MatchGlobParents_loop pm pattern anchor ?name =
     (if glob_matches pm pattern ?name then Inr True
      else if \<not> anchor \<and> glob_matches pm pattern c then Inr True
      else MatchGlobParents_loop pm pattern anchor (join_path cs))"
    by (subst MatchGlobParents_loop.simps)
      (simp add: ne split trim full base del: join_path.simps)
  also have "\<dots> = Inr (list_ex (glob_matches pm pattern) (ancestor_prefixes (cs @ [c]))
           \<or> (\<not> anchor \<and> list_ex (glob_matches pm pattern) (cs @ [c])))"
    by (auto simp: IH ancestor_prefixes_snoc list_ex_iff
        simp del: join_path.simps)
  finally show ?case .
qed

lemma strip_anchor_unanchored: "\<not> anchored pattern \<Longrightarrow> strip_anchor pattern = (pattern, False)"
  by (cases pattern) (auto simp: anchored_def)

lemma well_formed_all:
  "well_formed pm pattern \<Longrightarrow> list_all (\<lambda>n. pm (fst (strip_anchor pattern)) n \<noteq> Inl ErrBadPattern) ns"
  by (simp add: well_formed_def list_all_iff)

text \<open>
  Claim C5. For a path of components \<open>cs\<close> and a well-formed pattern with no leading
  slash, \<^verbatim>\<open>MatchGlobParents\<close> returns true when the pattern glob-matches a component of
  the path (its basename or the basename of an ancestor directory) or an ancestor-prefix
  of the path (the path itself included), and false exactly when it matches none of them;
  it returns no error.
\<close>

theorem MatchGlobParents_unanchored:
  assumes "list_all component cs" and "\<not> anchored pat" and "well_formed pm pat"
  shows "MatchGlobParents pm pat (join_path cs) =
           Inr (list_ex (glob_matches pm pat) cs
                \<or> list_ex (glob_matches pm pat) (ancestor_prefixes cs))"
proof -
  from assms(2) have sa: "strip_anchor pat = (pat, False)" by (rule strip_anchor_unanchored)
  have "MatchGlobParents_loop pm pat False (join_path cs) =
      Inr (list_ex (glob_matches pm pat) (ancestor_prefixes cs)
           \<or> (\<not> False \<and> list_ex (glob_matches pm pat) cs))"
    using assms(1) well_formed_all [OF assms(3)]
      MatchGlobParents_loop_components [where pm = pm and pattern = pat and anchor = False and cs = cs]
    by (simp add: sa)
  then show ?thesis by (auto simp: MatchGlobParents_def sa)
qed

theorem MatchGlobParents_unanchored_witness:
  "list_all component [''a'', ''b'', ''c.tmp''] \<and> \<not> anchored ''*.tmp''
   \<and> well_formed simple_Match ''*.tmp''
   \<and> MatchGlobParents simple_Match ''*.tmp'' ''a/b/c.tmp'' = Inr True
   \<and> glob_matches simple_Match ''*.tmp'' ''c.tmp''
   \<and> \<not> glob_matches simple_Match ''*.tmp'' ''a/b/c.tmp''"
proof -
  have cs: "list_all component [''a'', ''b'', ''c.tmp'']" by (simp add: component_def)
  have un: "\<not> anchored ''*.tmp''" by (simp add: anchored_def)
  have wf: "well_formed simple_Match ''*.tmp''" by (simp add: well_formed_simple_Match)
  have "glob_matches simple_Match ''*.tmp'' ''c.tmp''"
    and "\<not> glob_matches simple_Match ''*.tmp'' ''a/b/c.tmp''"
    by (simp_all add: glob_matches_def simple_Match_def)
  with cs un wf MatchGlobParents_unanchored [OF cs un wf] show ?thesis
    by simp
qed

text \<open>
  Claim C6. For a path of components \<open>cs\<close> and a well-formed pattern written with a
  leading slash, \<^verbatim>\<open>MatchGlobParents\<close> returns true exactly when the pattern without
  that slash glob-matches an ancestor-prefix of the path (the path itself included), and
  returns no error. A bare basename is never tested: the result is the same for every
  glob primitive that answers alike on the ancestor-prefixes, whatever it answers on
  other names.
\<close>

theorem MatchGlobParents_anchored:
  assumes "list_all component cs" and "well_formed pm (CHR ''/'' # pat)"
  shows "MatchGlobParents pm (CHR ''/'' # pat) (join_path cs) =
           Inr (list_ex (glob_matches pm pat) (ancestor_prefixes cs))
         \<and> (\<forall>pm'. map (pm' pat) (ancestor_prefixes cs) = map (pm pat) (ancestor_prefixes cs) \<longrightarrow>
               MatchGlobParents pm' (CHR ''/'' # pat) (join_path cs) =
               MatchGlobParents pm (CHR ''/'' # pat) (join_path cs))"
proof -
  have wf: "list_all (\<lambda>n. pm pat n \<noteq> Inl ErrBadPattern) (ancestor_prefixes cs)"
    using well_formed_all [OF assms(2)] by simp
  have eq: "MatchGlobParents pm (CHR ''/'' # pat) (join_path cs) =
      Inr (list_ex (glob_matches pm pat) (ancestor_prefixes cs))"
    using assms(1) wf
      MatchGlobParents_loop_components [where pm = pm and pattern = pat and anchor = True and cs = cs]
    by (simp add: MatchGlobParents_def)
  have "MatchGlobParents pm' (CHR ''/'' # pat) (join_path cs) =
      Inr (list_ex (glob_matches pm pat) (ancestor_prefixes cs))"
    if agree: "map (pm' pat) (ancestor_prefixes cs) = map (pm pat) (ancestor_prefixes cs)" for pm'
  proof -
    from agree have same: "\<And>n. n \<in> set (ancestor_prefixes cs) \<Longrightarrow> pm' pat n = pm pat n"
      by (simp add: map_eq_conv)
    with wf have wf': "list_all (\<lambda>n. pm' pat n \<noteq> Inl ErrBadPattern) (ancestor_prefixes cs)"
      by (simp add: list_all_iff)
    have "list_ex (glob_matches pm' pat) (ancestor_prefixes cs)
        = list_ex (glob_matches pm pat) (ancestor_prefixes cs)"
      using same by (simp add: list_ex_iff glob_matches_def)
    then show ?thesis
      using assms(1) wf'
        MatchGlobParents_loop_components [where pm = pm' and pattern = pat and anchor = True and cs = cs]
      by (simp add: MatchGlobParents_def)
  qed
  with eq show ?thesis by simp
qed

theorem MatchGlobParents_anchored_witness:
  "list_all component [''a'', ''b'', ''c.tmp''] \<and> well_formed simple_Match ''/b''
   \<and> MatchGlobParents simple_Match ''/b'' ''a/b/c.tmp'' = Inr False
   \<and> MatchGlobParents simple_Match ''b'' ''a/b/c.tmp'' = Inr True
   \<and> well_formed simple_Match ''/a/b''
   \<and> MatchGlobParents simple_Match ''/a/b'' ''a/b/c.tmp'' = Inr True"
proof -
  have cs: "list_all component [''a'', ''b'', ''c.tmp'']" by (simp add: component_def)
  have wf1: "well_formed simple_Match ''/b''" by (simp add: well_formed_simple_Match)
  have wf2: "well_formed simple_Match ''/a/b''" by (simp add: well_formed_simple_Match)
  have pre: "ancestor_prefixes [''a'', ''b'', ''c.tmp''] = [''a'', ''a/b'', ''a/b/c.tmp'']"
    by (simp add: ancestor_prefixes_def upt_rec)
  have "MatchGlobParents simple_Match ''/b'' ''a/b/c.tmp'' = Inr False"
    using MatchGlobParents_anchored [OF cs wf1]
    by (simp add: pre glob_matches_def simple_Match_def)
  moreover have "MatchGlobParents simple_Match ''/a/b'' ''a/b/c.tmp'' = Inr True"
    using MatchGlobParents_anchored [OF cs wf2]
    by (simp add: pre glob_matches_def simple_Match_def)
  moreover have "MatchGlobParents simple_Match ''b'' ''a/b/c.tmp'' = Inr True"
    by (simp add: MatchGlobParents_eval)
  ultimately show ?thesis using cs wf1 wf2 by simp
qed

subsection \<open>FormatBytesSI\<close>

lemma SI_loop_exp_bound:
  "0 \<le> sint n \<Longrightarrow> sint n < 1000 ^ Suc k \<Longrightarrow> snd (SI_loop n d e) \<le> e + k"
proof (induction k arbitrary: n d e)
  case 0
  then have "\<not> unit \<le>s n" by (simp add: unit_def word_sle_eq)
  then show ?case by (simp add: SI_loop.simps)
next
  case (Suc k)
  show ?case
  proof (cases "unit \<le>s n")
    case True
    then have s: "sint (div64 n unit) = sint n div 1000" by (rule sint_div64_unit)
    from Suc.prems have "0 \<le> sint n div 1000" and "sint n div 1000 < 1000 ^ Suc k"
      by simp_all
    with s have "snd (SI_loop (div64 n unit) (d * unit) (e + 1)) \<le> (e + 1) + k"
      by (intro Suc.IH) simp_all
    with True show ?thesis by (subst SI_loop.simps) simp
  next
    case False
    then show ?thesis by (simp add: SI_loop.simps)
  qed
qed

lemma SI_loop_exp_in_range:
  assumes "\<not> b <s unit"
  shows "snd (SI_loop (div64 b unit) unit 0) < length ''kMGTPE''"
proof -
  from assms have u: "unit \<le>s b" by simp
  then have b: "1000 \<le> sint b" by (simp add: unit_def word_sle_eq)
  have s: "sint (div64 b unit) = sint b div 1000" using u by (rule sint_div64_unit)
  have "sint b < 2 ^ 63" using sint_lt [of b] by simp
  then have "sint b div 1000 < 1000 ^ Suc 5" by simp
  moreover have "0 \<le> sint b div 1000" using b by simp
  ultimately have "snd (SI_loop (div64 b unit) unit 0) \<le> 0 + 5"
    using s by (intro SI_loop_exp_bound) simp_all
  then show ?thesis by simp
qed

text \<open>
  \<^verbatim>\<open>FormatBytesSI\<close> returns a string on every input: the loop ends with \<open>exp\<close> at most
  5, so the index into \<^verbatim>\<open>"kMGTPE"\<close> is in range and the function does not panic.
\<close>

theorem FormatBytesSI_total: "\<exists>s. FormatBytesSI b = Some s"
proof -
  let ?b = "if b <s 0 then b * (- 1) else b"
  show ?thesis
  proof (cases "?b <s unit")
    case True
    then show ?thesis by (simp add: FormatBytesSI_def Let_def)
  next
    case False
    then have e: "snd (SI_loop (div64 ?b unit) unit 0) < length ''kMGTPE''"
      by (rule SI_loop_exp_in_range)
    obtain d' e' where de: "SI_loop (div64 ?b unit) unit 0 = (d', e')"
      by (cases "SI_loop (div64 ?b unit) unit 0") blast
    with e have "e' < length ''kMGTPE''" by simp
    with False de show ?thesis
      by (simp add: FormatBytesSI_def Let_def)
  qed
qed


lemma digits_are_digits: "set (digits n) \<subseteq> set ''0123456789''"
proof (induction n rule: digits.induct)
  case (1 n)
  have d: "''0123456789'' ! k \<in> set ''0123456789''" if "k < 10" for k
    using that by (intro nth_mem) simp
  show ?case
  proof (cases "n < 10")
    case True
    then show ?thesis using d [of n] by (subst digits.simps) simp
  next
    case False
    then have "set (digits (n div 10)) \<subseteq> set ''0123456789''" by (rule 1)
    moreover have "''0123456789'' ! (n mod 10) \<in> set ''0123456789''" by (rule d) simp
    ultimately show ?thesis using False by (subst digits.simps) simp
  qed
qed

lemma sint_minus_int64:
  assumes "b \<noteq> min_int64"
  shows "sint (- b) = - sint b"
proof -
  have ge: "- (2 ^ 63) \<le> sint b" using sint_ge [of b] by simp
  have "sint b \<noteq> - (2 ^ 63)"
  proof
    assume "sint b = - (2 ^ 63)"
    then have "word_of_int (sint b) = (word_of_int (- (2 ^ 63)) :: int64)" by simp
    then have "b = min_int64" by (simp add: min_int64_def)
    with assms show False by contradiction
  qed
  with ge have "- (2 ^ 63) < sint b" by simp
  then show ?thesis
    using sint_lt [of b] by (simp add: sint_word_ariths signed_take_bit_int_eq_self)
qed

lemma sint_pow1000:
  "k < 6 \<Longrightarrow> sint ((1000 :: int64) ^ Suc k) = 1000 ^ Suc k"
proof -
  assume "k < 6"
  then consider "k = 0" | "k = 1" | "k = 2" | "k = 3" | "k = 4" | "k = 5" by linarith
  then show ?thesis by cases simp_all
qed

lemma SI_loop_result:
  "0 \<le> sint n \<Longrightarrow> sint n < 1000 ^ Suc k \<Longrightarrow> k = 0 \<or> 1000 ^ k \<le> sint n \<Longrightarrow>
     SI_loop n d e = (d * 1000 ^ k, e + k)"
proof (induction k arbitrary: n d e)
  case 0
  then have "\<not> unit \<le>s n" by (simp add: unit_def word_sle_eq)
  then show ?case by (simp add: SI_loop.simps)
next
  case (Suc k)
  from Suc.prems(3) have ge: "1000 * 1000 ^ k \<le> sint n" by simp
  have "(1000 :: int) \<le> 1000 * 1000 ^ k" by simp
  with ge have n: "1000 \<le> sint n" by linarith
  then have u: "unit \<le>s n" by (simp add: unit_def word_sle_eq)
  then have s: "sint (div64 n unit) = sint n div 1000" by (rule sint_div64_unit)
  have lo: "1000 ^ k \<le> sint n div 1000" using ge by simp
  have hi: "sint n div 1000 < 1000 ^ Suc k" using Suc.prems(2) by simp
  have "0 \<le> sint n div 1000" using n by simp
  with s lo hi have "SI_loop (div64 n unit) (d * unit) (e + 1) = (d * unit * 1000 ^ k, e + 1 + k)"
    by (intro Suc.IH) simp_all
  with u show ?case by (subst SI_loop.simps) (simp add: unit_def mult.assoc)
qed

lemma SI_exponent_exists:
  assumes "1000 \<le> x" and "x < 2 ^ 63"
  shows "\<exists>e<6. (1000 :: int) ^ Suc e \<le> x \<and> x < 1000 ^ Suc (Suc e)"
proof -
  have top: "(2 :: int) ^ 63 < 1000 ^ 7" by simp
  consider "x < 1000 ^ 2" | "1000 ^ 2 \<le> x" "x < 1000 ^ 3" | "1000 ^ 3 \<le> x" "x < 1000 ^ 4"
    | "1000 ^ 4 \<le> x" "x < 1000 ^ 5" | "1000 ^ 5 \<le> x" "x < 1000 ^ 6"
    | "1000 ^ 6 \<le> x" "x < 1000 ^ 7"
    using assms(2) top by linarith
  then show ?thesis
  proof cases
    case 1 then show ?thesis using assms(1) by (intro exI [of _ 0]) simp
  next
    case 2 then show ?thesis by (intro exI [of _ 1]) simp
  next
    case 3 then show ?thesis by (intro exI [of _ 2]) (simp add: numeral_3_eq_3)
  next
    case 4 then show ?thesis by (intro exI [of _ 3]) (simp add: eval_nat_numeral)
  next
    case 5 then show ?thesis by (intro exI [of _ 4]) (simp add: eval_nat_numeral)
  next
    case 6 then show ?thesis by (intro exI [of _ 5]) (simp add: eval_nat_numeral)
  qed
qed

lemma FormatBytesSI_scaled:
  assumes "\<not> b <s 0" and "\<not> b <s unit" and "e < 6"
    and "1000 ^ Suc e \<le> sint b" and "sint b < 1000 ^ Suc (Suc e)"
  shows "SI_loop (div64 b unit) unit 0 = (1000 ^ Suc e, e)"
proof -
  from assms(2) have u: "unit \<le>s b" by simp
  then have s: "sint (div64 b unit) = sint b div 1000" by (rule sint_div64_unit)
  have lo: "1000 ^ e \<le> sint b div 1000" using assms(4) by simp
  have hi: "sint b div 1000 < 1000 ^ Suc e" using assms(5) by simp
  have "(0 :: int) \<le> 1000 ^ e" by simp
  with lo have "0 \<le> sint b div 1000" by linarith
  with s lo hi have "SI_loop (div64 b unit) unit 0 = (unit * 1000 ^ e, 0 + e)"
    by (intro SI_loop_result) simp_all
  then show ?thesis by (simp add: unit_def)
qed

text \<open>
  Claim C9. The least \<^verbatim>\<open>int64\<close>, \<open>- 2^63\<close>, is its own negation, so
  \<^verbatim>\<open>FormatBytesSI\<close> finds it below \<^verbatim>\<open>unit\<close> after \<^verbatim>\<open>b *= -1\<close> and returns
  \<^verbatim>\<open>-9223372036854775808 B\<close>: the digits of the value itself, with no scaling. Every
  other input of at most -1000 is scaled: with \<open>1000^(e+1)\<close> the largest power of 1000
  that is at most its absolute value, it is rendered as a minus sign, the \<^verbatim>\<open>%.1f\<close> of
  the absolute value over \<open>1000^(e+1)\<close>, a space, the prefix number \<open>e\<close> of \<^verbatim>\<open>kMGTPE\<close>
  and \<^verbatim>\<open>B\<close>.
\<close>

theorem FormatBytesSI_min_int64:
  "min_int64 * (- 1) = min_int64
   \<and> FormatBytesSI min_int64 = Some ''-9223372036854775808 B''
   \<and> (\<forall>b. sint b \<le> - 1000 \<and> b \<noteq> min_int64 \<longrightarrow>
         (\<exists>e<6. 1000 ^ Suc e \<le> - sint b \<and> - sint b < 1000 ^ Suc (Suc e)
            \<and> FormatBytesSI b =
                Some (''-'' @ fmt_f1 (- sint b) (1000 ^ Suc e) @ '' '' @ [''kMGTPE'' ! e]
                      @ ''B'')))"
proof -
  have wrap: "min_int64 * (- 1) = min_int64" by (simp add: min_int64_def)
  have least: "FormatBytesSI min_int64 = Some ''-9223372036854775808 B''"
    by (simp add: min_int64_def FormatBytesSI_eval)
  have scaled: "\<exists>e<6. 1000 ^ Suc e \<le> - sint b \<and> - sint b < 1000 ^ Suc (Suc e)
        \<and> FormatBytesSI b =
            Some (''-'' @ fmt_f1 (- sint b) (1000 ^ Suc e) @ '' '' @ [''kMGTPE'' ! e] @ ''B'')"
    if b: "sint b \<le> - 1000" "b \<noteq> min_int64" for b
  proof -
    have neg: "sint (- b) = - sint b" using b(2) by (rule sint_minus_int64)
    have n1: "b <s 0" using b(1) by (simp add: word_sless_alt)
    have n2: "\<not> (- b) <s 0" using b(1) neg by (simp add: word_sless_alt)
    have n3: "\<not> (- b) <s unit" using b(1) neg by (simp add: word_sless_alt unit_def)
    have "1000 \<le> sint (- b)" and "sint (- b) < 2 ^ 63"
      using b(1) neg sint_lt [of "- b"] by simp_all
    then obtain e where e: "e < 6" and lo: "1000 ^ Suc e \<le> sint (- b)"
      and hi: "sint (- b) < 1000 ^ Suc (Suc e)"
      using SI_exponent_exists [of "sint (- b)"] by blast
    have loop: "SI_loop (div64 (- b) unit) unit 0 = (1000 ^ Suc e, e)"
      using n2 n3 e lo hi by (rule FormatBytesSI_scaled)
    have d: "sint ((1000 :: int64) ^ Suc e) = 1000 ^ Suc e" using e by (rule sint_pow1000)
    have "FormatBytesSI b =
        Some (''-'' @ fmt_f1 (- sint b) (1000 ^ Suc e) @ '' '' @ [''kMGTPE'' ! e] @ ''B'')"
      using n1 n3 e neg loop d by (simp add: FormatBytesSI_def Let_def)
    with e lo hi neg show ?thesis by auto
  qed
  from wrap least scaled show ?thesis by blast
qed

theorem FormatBytesSI_min_int64_witness:
  "sint (- 1950 :: int64) \<le> - 1000 \<and> (- 1950 :: int64) \<noteq> min_int64
   \<and> FormatBytesSI (- 1950) = Some ''-1.9 kB''"
proof -
  have a: "sint (- 1950 :: int64) \<le> - 1000" by simp
  have b: "(- 1950 :: int64) \<noteq> min_int64" by (simp add: min_int64_def)
  from FormatBytesSI_min_int64 a b obtain e where e: "e < 6"
    and lo: "1000 ^ Suc e \<le> - sint (- 1950 :: int64)"
    and out: "FormatBytesSI (- 1950) =
      Some (''-'' @ fmt_f1 (- sint (- 1950 :: int64)) (1000 ^ Suc e) @ '' ''
            @ [''kMGTPE'' ! e] @ ''B'')"
    by blast
  have "e = 0"
  proof (rule ccontr)
    assume "e \<noteq> 0"
    then have "Suc (Suc 0) \<le> Suc e" by simp
    then have "(1000 :: int) ^ Suc (Suc 0) \<le> 1000 ^ Suc e"
      by (intro power_increasing) simp_all
    with lo show False by simp
  qed
  moreover have "fmt_f1 1950 1000 = ''1.9''"
    by (simp add: FormatBytesSI_eval)
  ultimately have "FormatBytesSI (- 1950) = Some ''-1.9 kB''"
    using out by simp
  with a b show ?thesis by simp
qed

subsection \<open>The empty path, and the examples of the formatter\<close>

text \<open>
  Claim C10. On the empty path \<^verbatim>\<open>MatchGlobParents\<close> returns \<^verbatim>\<open>(false, nil)\<close> for every
  pattern, whatever the glob primitive says of the pattern, also when it would reject the
  pattern as malformed on every name: the loop \<^verbatim>\<open>for name != ""\<close> is not entered, so the
  primitive is never called.
\<close>

theorem MatchGlobParents_empty_path: "MatchGlobParents pm pattern [] = Inr False"
  by (simp add: MatchGlobParents_def MatchGlobParents_loop.simps split: prod.split)

text \<open>
  Claim C7. \<^verbatim>\<open>FormatBytesSI\<close> renders 0 as \<^verbatim>\<open>0 B\<close>, 999 as \<^verbatim>\<open>999 B\<close>, 1000 as
  \<^verbatim>\<open>1.0 kB\<close>, 1500000 as \<^verbatim>\<open>1.5 MB\<close> and -2000 as \<^verbatim>\<open>-2.0 kB\<close>. (The three quotients
  1000/1000, 1500000/1000000 and 2000/1000 are exact in \<^verbatim>\<open>float64\<close>.)
\<close>

theorem FormatBytesSI_examples:
  "FormatBytesSI 0 = Some ''0 B''
   \<and> FormatBytesSI 999 = Some ''999 B''
   \<and> FormatBytesSI 1000 = Some ''1.0 kB''
   \<and> FormatBytesSI 1500000 = Some ''1.5 MB''
   \<and> FormatBytesSI (- 2000) = Some ''-2.0 kB''"
proof -
  have "FormatBytesSI 0 = Some ''0 B''" by (simp add: FormatBytesSI_eval)
  moreover have "FormatBytesSI 999 = Some ''999 B''" by (simp add: FormatBytesSI_eval)
  moreover have "FormatBytesSI 1000 = Some ''1.0 kB''" by (simp add: FormatBytesSI_eval)
  moreover have "FormatBytesSI 1500000 = Some ''1.5 MB''" by (simp add: FormatBytesSI_eval)
  moreover have "FormatBytesSI (- 2000) = Some ''-2.0 kB''" by (simp add: FormatBytesSI_eval)
  ultimately show ?thesis by blast
qed

text \<open>
  Claim C2, at a failing input. The claim asks that every negative input be rendered
  with a leading minus sign, -5 as \<^verbatim>\<open>-5 B\<close>. The function sets \<^verbatim>\<open>neg\<close> and negates
  \<open>b\<close>, but the early return of line 44 prints \<open>b\<close> without looking at \<^verbatim>\<open>neg\<close>: -5 is
  rendered as \<^verbatim>\<open>5 B\<close>, and every input between -1000 and 0 as the digits of its
  absolute value followed by \<^verbatim>\<open> B\<close>, with no minus sign, exactly as its negation is.
\<close>

theorem FormatBytesSI_small_negative_loses_sign:
  "FormatBytesSI (- 5) = Some ''5 B''
   \<and> (\<forall>b. - 1000 < sint b \<and> sint b < 0 \<longrightarrow>
         FormatBytesSI b = Some (digits (nat (- sint b)) @ '' B'')
         \<and> CHR ''-'' \<notin> set (digits (nat (- sint b)))
         \<and> FormatBytesSI b = FormatBytesSI (- b))"
proof -
  have five: "FormatBytesSI (- 5) = Some ''5 B''" by (simp add: FormatBytesSI_eval)
  have small: "FormatBytesSI b = Some (digits (nat (- sint b)) @ '' B'')
      \<and> CHR ''-'' \<notin> set (digits (nat (- sint b)))
      \<and> FormatBytesSI b = FormatBytesSI (- b)"
    if b: "- 1000 < sint b" "sint b < 0" for b
  proof -
    have "sint min_int64 = - (2 ^ 63)" by (simp add: min_int64_def)
    with b(1) have "b \<noteq> min_int64" by auto
    then have neg: "sint (- b) = - sint b" by (rule sint_minus_int64)
    have n1: "b <s 0" using b(2) by (simp add: word_sless_alt)
    have n2: "\<not> (- b) <s 0" using b(2) neg by (simp add: word_sless_alt)
    have n3: "(- b) <s unit" using b(1) neg by (simp add: word_sless_alt unit_def)
    have pos: "\<not> - sint b < 0" using b(2) by simp
    have "CHR ''-'' \<notin> set (digits (nat (- sint b)))"
      using digits_are_digits [of "nat (- sint b)"] by auto
    then show ?thesis
      using n1 n2 n3 neg pos by (simp add: FormatBytesSI_def Let_def fmt_d_def)
  qed
  from five small show ?thesis by blast
qed

theorem FormatBytesSI_small_negative_loses_sign_witness:
  "- 1000 < sint (- 5 :: int64) \<and> sint (- 5 :: int64) < 0
   \<and> FormatBytesSI (- 5) = Some (digits (nat (- sint (- 5 :: int64))) @ '' B'')
   \<and> CHR ''-'' \<notin> set (digits (nat (- sint (- 5 :: int64))))
   \<and> FormatBytesSI (- 5) = FormatBytesSI (- (- 5))"
proof -
  have a: "- 1000 < sint (- 5 :: int64)" and b: "sint (- 5 :: int64) < 0" by simp_all
  from FormatBytesSI_small_negative_loses_sign a b show ?thesis by blast
qed

section \<open>Properties of the filter chain\<close>

lemma MatchGlobParents_loop_no_error:
  assumes wf: "\<forall>name. pm pattern name \<noteq> Inl ErrBadPattern"
  shows "MatchGlobParents_loop pm pattern anchor name \<noteq> Inl e"
proof (induction name rule: length_induct)
  case (1 name)
  show ?case
  proof (cases "name = []")
    case True
    then show ?thesis by (subst MatchGlobParents_loop.simps) simp
  next
    case False
    obtain parent base where sp: "path_Split name = (parent, base)"
      by (cases "path_Split name") blast
    have "length (TrimRight parent ''/'') < length name"
      using False sp by (rule TrimRight_parent_shorter)
    with 1 have IH: "MatchGlobParents_loop pm pattern anchor (TrimRight parent ''/'') \<noteq> Inl e"
      by simp
    have full: "pm pattern name = Inr (glob_matches pm pattern name)"
      and base: "pm pattern base = Inr (glob_matches pm pattern base)"
      using wf by (simp_all add: glob_total)
    show ?thesis
      using IH by (subst MatchGlobParents_loop.simps)
        (auto simp: False sp full base split: bool.split)
  qed
qed

lemma MatchGlobParents_well_formed:
  assumes "well_formed pm pattern"
  shows "\<exists>m. MatchGlobParents pm pattern name = Inr m"
proof -
  have "MatchGlobParents pm pattern name \<noteq> Inl e" for e
    using assms MatchGlobParents_loop_no_error [of pm "fst (strip_anchor pattern)"]
    by (cases "strip_anchor pattern") (simp add: MatchGlobParents_def well_formed_def)
  then show ?thesis
    by (cases "MatchGlobParents pm pattern name") auto
qed

lemma Exclude_loop_well_formed:
  "list_all (well_formed pm) xs \<Longrightarrow>
     Exclude_loop pm xs p excluded =
       Inr (excluded \<or> list_ex (\<lambda>x. MatchGlobParents pm x p = Inr True) xs)"
proof (induction xs arbitrary: excluded)
  case Nil
  then show ?case by simp
next
  case (Cons x xs)
  from Cons.prems obtain m where m: "MatchGlobParents pm x p = Inr m"
    using MatchGlobParents_well_formed [of pm x p] by auto
  from Cons.prems have "list_all (well_formed pm) xs" by simp
  from Cons.IH [OF this] show ?case
    by (simp add: m)
qed

lemma Include_loop_well_formed:
  "list_all (well_formed pm) xs \<Longrightarrow>
     Include_loop pm xs p excluded =
       Inr (excluded \<and> \<not> list_ex (\<lambda>x. MatchGlobParents pm x p = Inr True) xs)"
proof (induction xs arbitrary: excluded)
  case Nil
  then show ?case by simp
next
  case (Cons x xs)
  from Cons.prems obtain m where m: "MatchGlobParents pm x p = Inr m"
    using MatchGlobParents_well_formed [of pm x p] by auto
  from Cons.prems have "list_all (well_formed pm) xs" by simp
  from Cons.IH [OF this] show ?case
    by (simp add: m)
qed

lemma IsExcluded_well_formed:
  assumes "list_all (well_formed pm) (Exclude fl)" and "list_all (well_formed pm) (Include fl)"
  shows "IsExcluded pm fl p =
    Inr (matches_some pm (Exclude fl) p \<and> \<not> matches_some pm (Include fl) p)"
  using assms
  by (simp add: IsExcluded_def matches_some_def Exclude_loop_well_formed Include_loop_well_formed)

text \<open>
  Claim C4. For every entry path and every list of well-formed exclude patterns and of
  well-formed include patterns, the decision of the two loops is: the path matches at
  least one exclude pattern and matches no include pattern. So the decision is the same
  for any two flag values whose lists hold the same patterns, in whatever order, and an
  entry that matches no exclude pattern is not excluded, whatever the include list.
\<close>

theorem IsExcluded_spec:
  assumes "list_all (well_formed pm) (Exclude fl)" and "list_all (well_formed pm) (Include fl)"
  shows "IsExcluded pm fl p =
           Inr (matches_some pm (Exclude fl) p \<and> \<not> matches_some pm (Include fl) p)
         \<and> (\<forall>fl'. set (Exclude fl') = set (Exclude fl) \<and> set (Include fl') = set (Include fl)
               \<longrightarrow> IsExcluded pm fl' p = IsExcluded pm fl p)
         \<and> (\<not> matches_some pm (Exclude fl) p \<longrightarrow> IsExcluded pm fl p = Inr False)"
proof -
  have eq: "IsExcluded pm fl p =
      Inr (matches_some pm (Exclude fl) p \<and> \<not> matches_some pm (Include fl) p)"
    using assms by (rule IsExcluded_well_formed)
  have order: "IsExcluded pm fl' p = IsExcluded pm fl p"
    if ex: "set (Exclude fl') = set (Exclude fl)" and inc: "set (Include fl') = set (Include fl)"
    for fl'
  proof -
    from ex inc assms have "list_all (well_formed pm) (Exclude fl')"
      and "list_all (well_formed pm) (Include fl')"
      by (simp_all add: list_all_iff)
    then have "IsExcluded pm fl' p =
        Inr (matches_some pm (Exclude fl') p \<and> \<not> matches_some pm (Include fl') p)"
      by (rule IsExcluded_well_formed)
    moreover have "matches_some pm (Exclude fl') p = matches_some pm (Exclude fl) p"
      and "matches_some pm (Include fl') p = matches_some pm (Include fl) p"
      unfolding matches_some_def list_ex_iff ex inc by (rule refl)+
    ultimately show ?thesis unfolding eq by (simp only:)
  qed
  have none: "\<not> matches_some pm (Exclude fl) p \<longrightarrow> IsExcluded pm fl p = Inr False"
    unfolding eq by simp
  from eq order none show ?thesis by blast
qed

theorem IsExcluded_spec_witness:
  "list_all (well_formed simple_Match) [''/secrets'']
   \<and> list_all (well_formed simple_Match) [''/secrets/public.txt'']
   \<and> IsExcluded simple_Match
        \<lparr>vpkOut = ''out'', Exclude = [''/secrets''], Include = [''/secrets/public.txt'']\<rparr>
        ''secrets/key.pem'' = Inr True
   \<and> IsExcluded simple_Match
        \<lparr>vpkOut = ''out'', Exclude = [''/secrets''], Include = [''/secrets/public.txt'']\<rparr>
        ''secrets/public.txt'' = Inr False
   \<and> IsExcluded simple_Match
        \<lparr>vpkOut = ''out'', Exclude = [''/secrets''], Include = [''/secrets/public.txt'']\<rparr>
        ''maps/a.bsp'' = Inr False"
proof -
  let ?fl = "\<lparr>vpkOut = ''out'', Exclude = [''/secrets''], Include = [''/secrets/public.txt'']\<rparr>"
  have ex: "list_all (well_formed simple_Match) (Exclude ?fl)"
    and inc: "list_all (well_formed simple_Match) (Include ?fl)"
    by (simp_all add: well_formed_simple_Match)
  have "IsExcluded simple_Match ?fl ''secrets/key.pem'' = Inr True"
    using IsExcluded_spec [OF ex inc, of "''secrets/key.pem''"]
    by (simp add: matches_some_def MatchGlobParents_eval)
  moreover have "IsExcluded simple_Match ?fl ''secrets/public.txt'' = Inr False"
    using IsExcluded_spec [OF ex inc, of "''secrets/public.txt''"]
    by (simp add: matches_some_def MatchGlobParents_eval)
  moreover have "IsExcluded simple_Match ?fl ''maps/a.bsp'' = Inr False"
    using IsExcluded_spec [OF ex inc, of "''maps/a.bsp''"]
    by (simp add: matches_some_def MatchGlobParents_eval)
  ultimately show ?thesis using ex inc by simp
qed

section \<open>Properties of the extraction loop\<close>

lemma files_println [simp]: "files (println l st) = files st"
  and dirs_println [simp]: "dirs (println l st) = dirs st"
  and excludedCount_println [simp]: "excludedCount (println l st) = excludedCount st"
  and stdout_println [simp]: "stdout (println l st) = stdout st @ [l]"
  by (simp_all add: println_def)

lemmas main_eval =
  process_entry_def IsExcluded_def extract_entry_def MkdirAll_def CreateTemp_def Remove_def
  Rename_def filepath_Join_def filepath_Dir_def filepath_Clean_def Clean_step_def temp_name_def
  dir_chain_def println_def progress_line_def fmt_4d_def uncompressed_def FormatBytesSI_eval
  path_Split_def TrimRight_def

lemmas extract_entry_splits = option.splits prod.splits if_splits

text \<open>
  The branches that remove the temporary file. When the extraction of an entry exits
  on a failure of \<^verbatim>\<open>OpenFileParallel\<close>, of \<^verbatim>\<open>io.Copy\<close> or of \<^verbatim>\<open>Close\<close>, and
  \<^verbatim>\<open>os.Remove\<close> succeeds, the regular files are those from before the entry: the
  temporary file is gone and nothing is at the destination path that was not there.
\<close>

theorem extract_entry_removes_temp:
  assumes "extract_entry fl io f st = Exit e st'"
    and "e = ReadVpkFile q \<or> e = ExtractVpkFile q" and "Remove_ok io"
  shows "files st' = files st"
  using assms
  by (auto simp: extract_entry_def MkdirAll_def CreateTemp_def Remove_def Rename_def Let_def
      split: extract_entry_splits)

theorem extract_entry_removes_temp_witness:
  "extract_entry unfiltered ((all_ok ''1'' ''AB'')\<lparr>Copy_result := (''A'', False)\<rparr>)
      (entry ''a'' 2) fresh_root = Exit (ExtractVpkFile ''a'') fresh_root
   \<and> Remove_ok ((all_ok ''1'' ''AB'')\<lparr>Copy_result := (''A'', False)\<rparr>)
   \<and> files fresh_root ''out/.vpk1'' = None \<and> files fresh_root ''out/a'' = None"
proof -
  let ?io = "(all_ok ''1'' ''AB'')\<lparr>Copy_result := (''A'', False)\<rparr>"
  have run: "extract_entry unfiltered ?io (entry ''a'' 2) fresh_root
      = Exit (ExtractVpkFile ''a'') fresh_root"
    by (simp add: main_eval unfiltered_def all_ok_def entry_def fresh_root_def)
  have ok: "Remove_ok ?io" by (simp add: all_ok_def)
  have "files fresh_root ''out/.vpk1'' = None" and "files fresh_root ''out/a'' = None"
    by (simp_all add: fresh_root_def)
  with run ok extract_entry_removes_temp [OF run _ ok, of "''a''"] show ?thesis
    by simp
qed

lemma extract_entry_rename_failure_keeps_temp:
  assumes "extract_entry fl io f st = Exit (RenameTempFile q) st'"
  shows "\<exists>r. CreateTemp_random io = Some r
           \<and> files st' (temp_name (vpkOut fl) r) = Some (fst (Copy_result io))"
  using assms
  by (auto simp: extract_entry_def MkdirAll_def CreateTemp_def Remove_def Rename_def Let_def
      split: extract_entry_splits)

text \<open>
  Claim C8. When the filter chain excludes an entry, the iteration leaves the files and
  the directories as they were, whatever the world would have answered (no call is
  made), adds one to \<^verbatim>\<open>excludedCount\<close>, prints the one progress line of the entry, and
  the loop goes on with the next entry from that state.
\<close>

theorem excluded_entry_writes_nothing:
  assumes "IsExcluded pm fl (Path f) = Inr True"
  shows "\<exists>st'. process_entry pm fl io i n f st = Continue st'
           \<and> files st' = files st \<and> dirs st' = dirs st
           \<and> excludedCount st' = excludedCount st + 1
           \<and> stdout st' = stdout st @ [progress_line i n (Path f) ''excluded'']
           \<and> (\<forall>world fs. world i = io \<longrightarrow>
                 main_loop pm fl world i n (f # fs) st = main_loop pm fl world (Suc i) n fs st')"
  using assms by (simp add: process_entry_def)

theorem excluded_entry_writes_nothing_witness:
  "IsExcluded simple_Match no_secrets (Path (entry ''secrets/key.pem'' 5)) = Inr True
   \<and> (\<exists>st'. process_entry simple_Match no_secrets (all_ok ''1'' ''12345'') 0 1
               (entry ''secrets/key.pem'' 5) fresh_root = Continue st'
          \<and> files st' = files fresh_root \<and> dirs st' = dirs fresh_root
          \<and> excludedCount st' = 1
          \<and> stdout st' = [''[   1/   1] secrets/key.pem (excluded)''])"
proof -
  have ex: "IsExcluded simple_Match no_secrets (Path (entry ''secrets/key.pem'' 5)) = Inr True"
    by (simp add: IsExcluded_def no_secrets_def entry_def MatchGlobParents_eval)
  have line: "progress_line 0 1 ''secrets/key.pem'' ''excluded''
      = ''[   1/   1] secrets/key.pem (excluded)''"
    by (simp add: progress_line_def fmt_4d_def fmt_d_def digits.simps numeral_3_eq_3)
  have "Path (entry ''secrets/key.pem'' 5) = ''secrets/key.pem''"
    and "excludedCount fresh_root = 0" and "stdout fresh_root = []"
    by (simp_all add: entry_def fresh_root_def)
  with line ex
    excluded_entry_writes_nothing [OF ex, of "all_ok ''1'' ''12345''" 0 1 fresh_root]
  show ?thesis by auto
qed

text \<open>
  Claim C1, at a failing input. The claim asks that a failure of the final rename, like
  a failure of the steps before it, removes the temporary file. The branches for
  \<^verbatim>\<open>OpenFileParallel\<close>, \<^verbatim>\<open>io.Copy\<close> and \<^verbatim>\<open>Close\<close> call \<^verbatim>\<open>os.Remove\<close> before they
  exit; the branch for \<^verbatim>\<open>os.Rename\<close> (lines 218 to 221) does not. When the rename of
  the entry \<^verbatim>\<open>a\<close> fails, the run exits, nothing is at \<^verbatim>\<open>out/a\<close>, and the temporary
  file \<^verbatim>\<open>out/.vpk1\<close> stays in the destination root with the entry's bytes. The same
  happens with no simulated failure for the archive that lists \<^verbatim>\<open>a/b\<close> and then
  \<^verbatim>\<open>a\<close>: the run exits on the rename of the second entry, and \<^verbatim>\<open>out/.vpk2\<close> stays.
\<close>

theorem rename_failure_leaves_temporary_file:
  "exit_error rename_fault_run = Some (RenameTempFile ''a'')
   \<and> files (final_state rename_fault_run) ''out/.vpk1'' = Some ''A''
   \<and> files (final_state rename_fault_run) ''out/a'' = None
   \<and> ''out/a'' \<notin> dirs (final_state rename_fault_run)
   \<and> exit_error dir_then_file_run = Some (RenameTempFile ''a'')
   \<and> files (final_state dir_then_file_run) ''out/.vpk2'' = Some ''A''
   \<and> files (final_state dir_then_file_run) ''out/a'' = None"
proof -
  have "exit_error rename_fault_run = Some (RenameTempFile ''a'')"
    and "files (final_state rename_fault_run) ''out/.vpk1'' = Some ''A''"
    and "files (final_state rename_fault_run) ''out/a'' = None"
    and "''out/a'' \<notin> dirs (final_state rename_fault_run)"
    by (simp_all add: rename_fault_run_def main_eval unfiltered_def all_ok_def entry_def
        fresh_root_def)
  moreover have "exit_error dir_then_file_run = Some (RenameTempFile ''a'')"
    and "files (final_state dir_then_file_run) ''out/.vpk2'' = Some ''A''"
    and "files (final_state dir_then_file_run) ''out/a'' = None"
    by (simp_all add: dir_then_file_run_def main_eval unfiltered_def all_ok_def entry_def
        fresh_root_def two_worlds_def)
  ultimately show ?thesis by simp
qed

text \<open>
  Claim C3, refuted as stated. The claim asks that a file already at the destination
  path at rename time be reported and not overwritten. The loop calls \<^verbatim>\<open>os.Rename\<close>
  with no check of the destination, and \<^verbatim>\<open>os.Rename\<close> replaces a regular file: the
  entry \<^verbatim>\<open>.vpkflags\<close> is extracted over the manifest saved at line 140, with no error.
\<close>

theorem rename_replaces_existing_file:
  "files fresh_root ''out/.vpkflags'' = Some ''flags''
   \<and> exit_error manifest_clash_run = None
   \<and> files (final_state manifest_clash_run) ''out/.vpkflags'' = Some ''new''"
  by (simp add: manifest_clash_run_def main_eval unfiltered_def all_ok_def entry_def
      fresh_root_def)

text \<open>
  Claim C3, as amended. The loop renames with no check of the destination. Whenever
  the output directory is there, every call of the extraction succeeds, no parent of the
  destination is a regular file, the temporary name is fresh and the destination path is
  not a directory, the extraction of the entry succeeds: the destination path holds the
  bytes extracted for the entry, the temporary file is gone, and every other file is as
  it was. Nothing is
  asked of what was at the destination path before: a regular file already there is
  replaced, and nothing is reported. And the error of the rename is reported only when
  \<^verbatim>\<open>os.Rename\<close> itself fails: the world makes it fail, or the destination is a
  directory.
\<close>

theorem extract_entry_replaces_destination:
  fixes fl :: flags and f :: ValvePakFile and st :: state
  defines "outPath \<equiv> filepath_Join (vpkOut fl) (Path f)"
  defines "made \<equiv> dir_chain (filepath_Dir (filepath_Join (vpkOut fl) (Path f)))"
  shows "(vpkOut fl \<noteq> [] \<and> filepath_Clean (vpkOut fl) \<in> dirs st
          \<and> calls_succeed io r bytes
          \<and> list_all (\<lambda>a. files st a = None) made
          \<and> files st (temp_name (vpkOut fl) r) = None
          \<and> temp_name (vpkOut fl) r \<notin> dirs st \<union> set made
          \<and> outPath \<notin> dirs st \<union> set made
          \<longrightarrow> extract_entry fl io f st =
                Continue (st\<lparr>dirs := dirs st \<union> set made,
                             files := ((files st)(temp_name (vpkOut fl) r := None))
                                        (outPath \<mapsto> bytes)\<rparr>))
         \<and> (extract_entry fl io f st = Exit (RenameTempFile q) st'
              \<longrightarrow> \<not> Rename_ok io \<or> outPath \<in> dirs st')"
proof (intro conjI impI)
  assume a: "vpkOut fl \<noteq> [] \<and> filepath_Clean (vpkOut fl) \<in> dirs st
          \<and> calls_succeed io r bytes
          \<and> list_all (\<lambda>a. files st a = None) made
          \<and> files st (temp_name (vpkOut fl) r) = None
          \<and> temp_name (vpkOut fl) r \<notin> dirs st \<union> set made
          \<and> outPath \<notin> dirs st \<union> set made"
  let ?tf = "temp_name (vpkOut fl) r"
  let ?st1 = "st\<lparr>dirs := dirs st \<union> set made\<rparr>"
  let ?st2 = "?st1\<lparr>files := (files ?st1)(?tf \<mapsto> [])\<rparr>"
  let ?st3 = "?st2\<lparr>files := (files ?st2)(?tf \<mapsto> bytes)\<rparr>"
  from a have ok: "MkdirAll_ok io" "CreateTemp_random io = Some r" "OpenFileParallel_ok io"
    "Copy_result io = (bytes, True)" "Close_ok io" "Rename_ok io"
    by (simp_all add: calls_succeed_def)
  from a have parents: "list_all (\<lambda>a. files st a = None) made"
    and fresh: "files st ?tf = None" "?tf \<notin> dirs st \<union> set made"
    and no_dir: "outPath \<notin> dirs st \<union> set made"
    and root: "filepath_Clean (vpkOut fl) \<in> dirs st"
    by simp_all
  have "\<not> list_ex (\<lambda>a. files st a \<noteq> None) made"
    using parents by (simp add: list_all_iff list_ex_iff)
  then have mk: "MkdirAll io (filepath_Dir outPath) st = Some ?st1"
    using ok(1) by (simp add: MkdirAll_def made_def outPath_def)
  have ct: "CreateTemp io (vpkOut fl) ?st1 = Some (?tf, ?st2)"
    using ok(2) fresh root by (simp add: CreateTemp_def Let_def)
  have rn: "Rename io ?tf outPath ?st3 =
      Some (?st3\<lparr>files := ((files ?st3)(?tf := None))(outPath \<mapsto> bytes)\<rparr>)"
    using ok(6) no_dir by (simp add: Rename_def)
  have "extract_entry fl io f st =
      Continue (?st3\<lparr>files := ((files ?st3)(?tf := None))(outPath \<mapsto> bytes)\<rparr>)"
    unfolding extract_entry_def Let_def outPath_def [symmetric]
    using mk ct rn ok(3,4,5) by simp
  then show "extract_entry fl io f st =
      Continue (st\<lparr>dirs := dirs st \<union> set made,
                   files := ((files st)(?tf := None))(outPath \<mapsto> bytes)\<rparr>)"
    by simp
next
  assume "extract_entry fl io f st = Exit (RenameTempFile q) st'"
  then show "\<not> Rename_ok io \<or> outPath \<in> dirs st'"
    by (auto simp: extract_entry_def outPath_def MkdirAll_def CreateTemp_def Remove_def
        Rename_def Let_def split: extract_entry_splits)
qed

theorem extract_entry_replaces_destination_witness:
  "vpkOut unfiltered \<noteq> [] \<and> filepath_Clean (vpkOut unfiltered) \<in> dirs fresh_root
   \<and> calls_succeed (all_ok ''1'' ''new'') ''1'' ''new''
   \<and> filepath_Join (vpkOut unfiltered) (Path (entry ''.vpkflags'' 3)) = ''out/.vpkflags''
   \<and> temp_name (vpkOut unfiltered) ''1'' = ''out/.vpk1''
   \<and> files fresh_root ''out/.vpkflags'' = Some ''flags''
   \<and> files fresh_root ''out/.vpk1'' = None
   \<and> extract_entry unfiltered (all_ok ''1'' ''new'') (entry ''.vpkflags'' 3) fresh_root
       = Continue (fresh_root\<lparr>files := (files fresh_root)(''out/.vpkflags'' \<mapsto> ''new'')\<rparr>)"
proof -
  let ?f = "entry ''.vpkflags'' 3"
  have root: "vpkOut unfiltered \<noteq> []" by (simp add: unfiltered_def)
  have there: "filepath_Clean (vpkOut unfiltered) \<in> dirs fresh_root"
    by (simp add: unfiltered_def fresh_root_def filepath_Clean_def Clean_step_def)
  have world: "calls_succeed (all_ok ''1'' ''new'') ''1'' ''new''"
    by (simp add: calls_succeed_def all_ok_def)
  have out: "filepath_Join (vpkOut unfiltered) (Path ?f) = ''out/.vpkflags''"
    by (simp add: unfiltered_def entry_def filepath_Join_def filepath_Clean_def Clean_step_def)
  have made: "dir_chain (filepath_Dir ''out/.vpkflags'') = [''out'']"
    by (simp add: filepath_Dir_def path_Split_def filepath_Clean_def Clean_step_def
        dir_chain_def)
  have tf: "temp_name (vpkOut unfiltered) ''1'' = ''out/.vpk1''"
    by (simp add: unfiltered_def temp_name_def)
  have old: "files fresh_root ''out/.vpkflags'' = Some ''flags''"
    and fresh: "files fresh_root ''out/.vpk1'' = None"
    and parents: "files fresh_root ''out'' = None"
    and ds: "dirs fresh_root = {''out''}"
    by (simp_all add: fresh_root_def)
  have "extract_entry unfiltered (all_ok ''1'' ''new'') ?f fresh_root =
      Continue (fresh_root\<lparr>dirs := dirs fresh_root \<union> set [''out''],
        files := ((files fresh_root)(''out/.vpk1'' := None))(''out/.vpkflags'' \<mapsto> ''new'')\<rparr>)"
    using root there world fresh parents ds
      extract_entry_replaces_destination
        [where fl = unfiltered and io = "all_ok ''1'' ''new''" and r = "''1''"
          and bytes = "''new''" and st = fresh_root and f = ?f]
    by (simp add: out made tf)
  moreover have "(files fresh_root)(''out/.vpk1'' := None) = files fresh_root"
    using fresh by (simp add: fun_upd_idem_iff)
  moreover have "dirs fresh_root \<union> set [''out''] = dirs fresh_root"
    by (simp add: ds)
  ultimately have "extract_entry unfiltered (all_ok ''1'' ''new'') ?f fresh_root =
      Continue (fresh_root\<lparr>files := (files fresh_root)(''out/.vpkflags'' \<mapsto> ''new'')\<rparr>)"
    by simp
  with root there world out tf old fresh show ?thesis by simp
qed

end
